theory Spec2Isabelle
  imports Complex_Main
begin

section \<open>The NeuroDoc Python client: batch queries and performance analysis\<close>

text \<open>
  This theory embeds the two batch methods of \<^verbatim>\<open>NeuroDocWorkflow\<close> in
  \<^verbatim>\<open>examples/python_client.py\<close>: \<^verbatim>\<open>batch_queries\<close> (lines 175-196) and
  \<^verbatim>\<open>analyze_performance\<close> (lines 198-236).

  Conventions of the embedding:
  \<^item> Both methods call \<^verbatim>\<open>self.client.query_documents(query)\<close>, which talks to a remote
    server; \<^verbatim>\<open>analyze_performance\<close> reads \<^verbatim>\<open>time.time()\<close>; \<^verbatim>\<open>batch_queries\<close>
    writes a progress line with \<^verbatim>\<open>print\<close>. All three are effects on the outside world,
    so they are parameters that take the world \<open>'w\<close> and return the new one together
    with their result. Nothing is assumed about them.
  \<^item> An exception is a value: \<open>Inl\<close> of a sum type. Of an exception caught by
    \<^verbatim>\<open>except Exception as e\<close> the code only uses \<^verbatim>\<open>str(e)\<close>.
  \<^item> A Python \<^verbatim>\<open>int\<close> is an integer of HOL. A finite Python \<^verbatim>\<open>float\<close> is the real
    number it stands for. The arithmetic on the confidences and on the counts (the sum,
    the two ratios) rounds to the nearest IEEE-754 double after every operation, ties
    to even, as the interpreter does. What is left out: the infinities, NaN and the
    overflow of doubles (no result is cut off at the largest double, and no
    OverflowError is raised for an \<^verbatim>\<open>int\<close> too large for a \<^verbatim>\<open>float\<close>).
  \<^item> The readings of the clock and the durations computed from them are exact: the
    differences and the average time are not rounded.
\<close>

subsection \<open>JSON values and exceptions\<close>

text \<open>
  What \<^verbatim>\<open>response.json()\<close> can return: any JSON value. An object is a Python dict,
  given by the list of its items; a dict has each key once, so looking a key up is
  \<open>map_of\<close> on that list.
\<close>

datatype json =
    JNull
  | JBool bool
  | JInt int
  | JFloat real
  | JStr string
  | JArr "json list"
  | JObj "(string \<times> json) list"

text \<open>
  An exception caught by \<^verbatim>\<open>except Exception as e\<close>, carrying the text \<^verbatim>\<open>str(e)\<close>.
  What is not an \<^verbatim>\<open>Exception\<close> (KeyboardInterrupt, SystemExit) is not caught by the
  source and is outside the model.
\<close>

datatype py_exception = PyException string

fun str :: "py_exception \<Rightarrow> string" where
  "str (PyException msg) = msg"

text \<open>The exceptions that the aggregation of \<^verbatim>\<open>analyze_performance\<close> itself can raise.\<close>

datatype py_error = ZeroDivisionError | TypeError | KeyError

text \<open>
  The collaborators: \<^verbatim>\<open>client.query_documents\<close> returns the parsed response or raises,
  \<^verbatim>\<open>time.time\<close> returns the current reading of the clock.
\<close>

type_synonym 'w client = "string \<Rightarrow> 'w \<Rightarrow> (py_exception + json) \<times> 'w"

type_synonym 'w clock = "'w \<Rightarrow> real \<times> 'w"

text \<open>
  The \<^verbatim>\<open>print\<close> call of line 180, given the three values it formats: the index
  \<^verbatim>\<open>i\<close>, \<^verbatim>\<open>len(queries)\<close> and the query. It writes to the standard output and can
  raise (UnicodeEncodeError when the output cannot encode the text, OSError when it is
  closed): \<open>Some e\<close> is the exception, \<open>None\<close> a line written.
\<close>

type_synonym 'w printer = "nat \<Rightarrow> nat \<Rightarrow> string \<Rightarrow> 'w \<Rightarrow> py_exception option \<times> 'w"

text \<open>
  \<^verbatim>\<open>result.get(key, default)\<close>. On a dict it never raises; on any other value the
  attribute \<^verbatim>\<open>get\<close> does not exist and Python raises AttributeError, whose text names
  the type of the value.
\<close>

fun type_name :: "json \<Rightarrow> string" where
  "type_name JNull = ''NoneType''"
| "type_name (JBool b) = ''bool''"
| "type_name (JInt n) = ''int''"
| "type_name (JFloat x) = ''float''"
| "type_name (JStr s) = ''str''"
| "type_name (JArr xs) = ''list''"
| "type_name (JObj kvs) = ''dict''"

definition quoted :: "string \<Rightarrow> string" where
  "quoted s = [CHR 0x27] @ s @ [CHR 0x27]"

fun dict_get :: "json \<Rightarrow> string \<Rightarrow> json \<Rightarrow> py_exception + json" where
  "dict_get (JObj kvs) key dflt =
     Inr (case map_of kvs key of Some v \<Rightarrow> v | None \<Rightarrow> dflt)"
| "dict_get v key dflt =
     Inl (PyException (quoted (type_name v) @ '' object has no attribute '' @ quoted ''get''))"

subsection \<open>Outcome records and the summary\<close>

text \<open>
  The dicts appended to \<^verbatim>\<open>results\<close>. Each dict literal of the source has a fixed set of
  keys; a field is \<open>None\<close> when the literal has no such key, and \<open>Some JNull\<close> when the
  key is there with the Python value \<^verbatim>\<open>None\<close>. The key \<^verbatim>\<open>'query'\<close> and the key
  \<^verbatim>\<open>'success'\<close> are in every literal.
\<close>

record outcome =
  query :: string
  decision :: "json option"
  confidence :: "json option"
  error :: "string option"
  response_time :: "real option"
  success :: bool

text \<open>The dict returned by \<^verbatim>\<open>analyze_performance\<close> (lines 228-236).\<close>

record summary =
  total_queries :: nat
  successful_queries :: nat
  total_time :: real
  average_time :: real
  success_rate :: real
  average_confidence :: real
  results :: "outcome list"

subsection \<open>\<^verbatim>\<open>batch_queries\<close>\<close>

text \<open>
  The body of the \<^verbatim>\<open>try\<close> after the call has returned (lines 183-188): both
  \<^verbatim>\<open>result.get\<close> calls are evaluated before the dict is appended.
\<close>

definition batch_success :: "string \<Rightarrow> json \<Rightarrow> py_exception + outcome" where
  "batch_success q result =
     (case dict_get result ''Decision'' JNull of
        Inl e \<Rightarrow> Inl e
      | Inr d \<Rightarrow>
          (case dict_get result ''ConfidenceScore'' JNull of
             Inl e \<Rightarrow> Inl e
           | Inr c \<Rightarrow>
               Inr \<lparr>query = q, decision = Some d, confidence = Some c, error = None,
                    response_time = None, success = True\<rparr>))"

text \<open>The dict of the \<^verbatim>\<open>except\<close> branch (lines 190-194).\<close>

definition batch_failure :: "string \<Rightarrow> py_exception \<Rightarrow> outcome" where
  "batch_failure q e =
     \<lparr>query = q, decision = None, confidence = None, error = Some (str e),
      response_time = None, success = False\<rparr>"

text \<open>
  The \<^verbatim>\<open>try\<close> statement of one iteration (lines 181-194): the record it appends and
  the new world. No exception leaves it.
\<close>

definition batch_step :: "'w client \<Rightarrow> string \<Rightarrow> 'w \<Rightarrow> outcome \<times> 'w" where
  "batch_step query_documents q w =
     (case query_documents q w of
        (Inl e, w') \<Rightarrow> (batch_failure q e, w')
      | (Inr result, w') \<Rightarrow>
          (case batch_success q result of
             Inr r \<Rightarrow> (r, w')
           | Inl e \<Rightarrow> (batch_failure q e, w')))"

text \<open>
  The loop (lines 179-194), with \<open>n\<close> for \<^verbatim>\<open>len(queries)\<close>, \<open>i\<close> for the index of
  \<^verbatim>\<open>enumerate(queries, 1)\<close> and \<open>res\<close> for the list \<^verbatim>\<open>results\<close>. The \<^verbatim>\<open>print\<close>
  of line 180 comes first in every iteration and is outside the \<^verbatim>\<open>try\<close>: when it
  raises, the exception leaves \<^verbatim>\<open>batch_queries\<close> and the records collected so far
  are lost.
\<close>

fun batch_loop ::
  "'w client \<Rightarrow> 'w printer \<Rightarrow> nat \<Rightarrow> nat \<Rightarrow> string list \<Rightarrow> outcome list \<Rightarrow> 'w
     \<Rightarrow> (py_exception + outcome list) \<times> 'w" where
  "batch_loop query_documents print n i [] res w = (Inr res, w)"
| "batch_loop query_documents print n i (q # rest) res w =
     (case print i n q w of
        (Some e, w1) \<Rightarrow> (Inl e, w1)
      | (None, w1) \<Rightarrow>
          (case batch_step query_documents q w1 of
             (r, w') \<Rightarrow> batch_loop query_documents print n (Suc i) rest (res @ [r]) w'))"

definition batch_queries ::
  "'w client \<Rightarrow> 'w printer \<Rightarrow> string list \<Rightarrow> 'w \<Rightarrow> (py_exception + outcome list) \<times> 'w" where
  "batch_queries query_documents print queries w =
     batch_loop query_documents print (length queries) 1 queries [] w"

text \<open>
  What a part of the loop returns when it starts with the records \<open>res\<close> instead of
  the empty list: the same exception, or the same records after \<open>res\<close>.
\<close>

definition prepend ::
  "outcome list \<Rightarrow> (py_exception + outcome list) \<times> 'w \<Rightarrow> (py_exception + outcome list) \<times> 'w" where
  "prepend res x = (case x of (Inl e, w) \<Rightarrow> (Inl e, w) | (Inr rs, w) \<Rightarrow> (Inr (res @ rs), w))"

subsection \<open>\<^verbatim>\<open>analyze_performance\<close>: the loop\<close>

text \<open>Lines 209-215, with \<^verbatim>\<open>query_time\<close> already computed at line 207.\<close>

definition perf_success :: "string \<Rightarrow> json \<Rightarrow> real \<Rightarrow> py_exception + outcome" where
  "perf_success q result query_time =
     (case dict_get result ''Decision'' JNull of
        Inl e \<Rightarrow> Inl e
      | Inr d \<Rightarrow>
          (case dict_get result ''ConfidenceScore'' (JInt 0) of
             Inl e \<Rightarrow> Inl e
           | Inr c \<Rightarrow>
               Inr \<lparr>query = q, decision = Some d, confidence = Some c, error = None,
                    response_time = Some query_time, success = True\<rparr>))"

text \<open>Lines 218-223.\<close>

definition perf_failure :: "string \<Rightarrow> py_exception \<Rightarrow> real \<Rightarrow> outcome" where
  "perf_failure q e query_time =
     \<lparr>query = q, decision = None, confidence = None, error = Some (str e),
      response_time = Some query_time, success = False\<rparr>"

text \<open>
  One iteration (lines 204-223). The clock is read before the call, and again after it
  on either path; when a \<^verbatim>\<open>result.get\<close> raises after line 207, the \<^verbatim>\<open>except\<close> branch
  reads the clock once more.
\<close>

definition perf_step :: "'w client \<Rightarrow> 'w clock \<Rightarrow> string \<Rightarrow> 'w \<Rightarrow> outcome \<times> 'w" where
  "perf_step query_documents time q w =
     (case time w of (query_start, w1) \<Rightarrow>
      (case query_documents q w1 of
         (Inl e, w2) \<Rightarrow>
           (case time w2 of (t, w3) \<Rightarrow> (perf_failure q e (t - query_start), w3))
       | (Inr result, w2) \<Rightarrow>
           (case time w2 of (t, w3) \<Rightarrow>
              (case perf_success q result (t - query_start) of
                 Inr r \<Rightarrow> (r, w3)
               | Inl e \<Rightarrow>
                   (case time w3 of (t', w4) \<Rightarrow>
                      (perf_failure q e (t' - query_start), w4))))))"

fun perf_loop ::
  "'w client \<Rightarrow> 'w clock \<Rightarrow> string list \<Rightarrow> outcome list \<Rightarrow> 'w \<Rightarrow> outcome list \<times> 'w" where
  "perf_loop query_documents time [] res w = (res, w)"
| "perf_loop query_documents time (q # rest) res w =
     (case perf_step query_documents time q w of
        (r, w') \<Rightarrow> perf_loop query_documents time rest (res @ [r]) w')"

subsection \<open>Python numbers\<close>

text \<open>
  Rounding to the nearest double, ties to even. A double other than zero is
  \<open>m * 2 ^ e\<close> with an integer \<open>m\<close> of at most 53 bits and \<open>e \<ge> -1074\<close>. The magnitude
  is scaled by powers of two until it lies in \<open>[2 ^ 52, 2 ^ 53)\<close> (or the smallest
  exponent is reached, for the subnormal numbers), rounded to an integer there, and
  scaled back.
\<close>

function scale_down :: "real \<Rightarrow> int \<Rightarrow> real \<times> int" where
  "scale_down a e = (if 2 ^ 53 \<le> a then scale_down (a / 2) (e + 1) else (a, e))"
  by pat_completeness auto
termination
proof (relation "measure (\<lambda>(a, e). nat \<lceil>a\<rceil>)")
  show "wf (measure (\<lambda>(a, e). nat \<lceil>a\<rceil>))" by simp
next
  fix a :: real and e :: int
  assume "2 ^ 53 \<le> a"
  then have "a / 2 \<le> a - 1" and "0 < a" by simp_all
  then have "\<lceil>a / 2\<rceil> \<le> \<lceil>a\<rceil> - 1" and "0 < \<lceil>a\<rceil>"
    by (metis ceiling_mono ceiling_diff_one, simp)
  then show "((a / 2, e + 1), (a, e)) \<in> measure (\<lambda>(a, e). nat \<lceil>a\<rceil>)" by simp
qed

function scale_up :: "real \<Rightarrow> int \<Rightarrow> real \<times> int" where
  "scale_up a e = (if a < 2 ^ 52 \<and> - 1074 < e then scale_up (a * 2) (e - 1) else (a, e))"
  by pat_completeness auto
termination
  by (relation "measure (\<lambda>(a, e). nat (e + 1074))") auto

text \<open>
  Both equations call themselves under a condition only, so they are unfolded by hand
  and kept away from the simplifier.
\<close>

declare scale_down.simps [simp del] scale_up.simps [simp del]

definition round_half_even :: "real \<Rightarrow> int" where
  "round_half_even x =
     (let f = \<lfloor>x\<rfloor>; d = x - of_int f
      in if d < 1 / 2 then f else if 1 / 2 < d then f + 1 else if even f then f else f + 1)"

definition pow2 :: "int \<Rightarrow> real" where
  "pow2 e = (if 0 \<le> e then 2 ^ nat e else 1 / 2 ^ nat (- e))"

definition round_double :: "real \<Rightarrow> real" where
  "round_double x =
     (if x = 0 then 0
      else case scale_down \<bar>x\<bar> 0 of (a, e) \<Rightarrow>
           (case scale_up a e of (m, e') \<Rightarrow> sgn x * of_int (round_half_even m) * pow2 e'))"

text \<open>
  A number that Python adds: an \<^verbatim>\<open>int\<close> (a \<^verbatim>\<open>bool\<close> is an \<^verbatim>\<open>int\<close>) or a
  \<^verbatim>\<open>float\<close>. \<^verbatim>\<open>float(n)\<close> rounds an \<^verbatim>\<open>int\<close>; the sum of two doubles is the rounded
  sum, and adding zero changes nothing.
\<close>

datatype num = PInt int | PFloat real

fun to_float :: "num \<Rightarrow> real" where
  "to_float (PInt n) = round_double (of_int n)"
| "to_float (PFloat x) = x"

definition float_add :: "real \<Rightarrow> real \<Rightarrow> real" where
  "float_add x y = (if y = 0 then x else if x = 0 then y else round_double (x + y))"

text \<open>\<^verbatim>\<open>a + b\<close> on numbers: exact on two \<^verbatim>\<open>int\<close>s, in doubles otherwise.\<close>

fun num_add :: "num \<Rightarrow> num \<Rightarrow> num" where
  "num_add (PInt a) (PInt b) = PInt (a + b)"
| "num_add a b = PFloat (float_add (to_float a) (to_float b))"

text \<open>
  \<^verbatim>\<open>a / n\<close> for a count \<^verbatim>\<open>n\<close> (a \<^verbatim>\<open>len\<close>): ZeroDivisionError when \<^verbatim>\<open>n\<close> is zero;
  the correctly rounded quotient of two \<^verbatim>\<open>int\<close>s; for a \<^verbatim>\<open>float\<close>, the count is
  converted first and the quotient of the two doubles is rounded.
\<close>

definition num_truediv :: "num \<Rightarrow> nat \<Rightarrow> py_error + real" where
  "num_truediv a n =
     (if n = 0 then Inl ZeroDivisionError
      else case a of
             PInt k \<Rightarrow> Inr (round_double (of_int k / of_nat n))
           | PFloat x \<Rightarrow> Inr (round_double (x / round_double (of_nat n))))"

text \<open>
  \<^verbatim>\<open>t / n\<close> for a duration \<^verbatim>\<open>t\<close>: ZeroDivisionError when \<^verbatim>\<open>n\<close> is zero; durations are
  exact in this model, so the quotient is not rounded.
\<close>

definition truediv :: "real \<Rightarrow> real \<Rightarrow> py_error + real" where
  "truediv a b = (if b = 0 then Inl ZeroDivisionError else Inr (a / b))"

subsection \<open>\<^verbatim>\<open>analyze_performance\<close>: the aggregation\<close>

text \<open>
  The number that a JSON value is for \<^verbatim>\<open>+\<close>: \<^verbatim>\<open>None\<close>, strings, lists and dicts are
  none, and adding one of them to a number is a TypeError.
\<close>

fun as_number :: "json \<Rightarrow> num option" where
  "as_number (JInt n) = Some (PInt n)"
| "as_number (JFloat x) = Some (PFloat x)"
| "as_number (JBool b) = Some (PInt (if b then 1 else 0))"
| "as_number v = None"

definition py_add :: "num \<Rightarrow> json \<Rightarrow> py_error + num" where
  "py_add acc v = (case as_number v of None \<Rightarrow> Inl TypeError | Some x \<Rightarrow> Inr (num_add acc x))"

text \<open>
  \<^verbatim>\<open>sum(r['confidence'] for r in successful_queries)\<close>: the built-in starts from the
  \<^verbatim>\<open>int\<close> 0 and adds the items from left to right (CPython up to 3.11; from 3.12 on
  the built-in compensates the rounding errors of its float additions, which can change
  the last bit of the result); \<^verbatim>\<open>r['confidence']\<close> raises KeyError on a dict without
  that key.
\<close>

fun sum_confidence :: "outcome list \<Rightarrow> num \<Rightarrow> py_error + num" where
  "sum_confidence [] acc = Inr acc"
| "sum_confidence (r # rs) acc =
     (case confidence r of
        None \<Rightarrow> Inl KeyError
      | Some c \<Rightarrow>
          (case py_add acc c of
             Inl e \<Rightarrow> Inl e
           | Inr acc' \<Rightarrow> sum_confidence rs acc'))"

text \<open>
  Lines 226-236: the values of the returned dict are evaluated in the order in which they
  are written, so the first one that raises decides the exception.
\<close>

definition build_summary :: "string list \<Rightarrow> outcome list \<Rightarrow> real \<Rightarrow> py_error + summary" where
  "build_summary queries rs total_t =
     (let successful = filter success rs in
      case truediv total_t (real (length queries)) of
        Inl e \<Rightarrow> Inl e
      | Inr avg_time \<Rightarrow>
      (case num_truediv (PInt (int (length successful))) (length queries) of
        Inl e \<Rightarrow> Inl e
      | Inr rate \<Rightarrow>
      (case (if successful \<noteq> []
             then (case sum_confidence successful (PInt 0) of
                     Inl e \<Rightarrow> Inl e
                   | Inr s \<Rightarrow> num_truediv s (length successful))
             else Inr 0) of
        Inl e \<Rightarrow> Inl e
      | Inr avg_conf \<Rightarrow>
          Inr \<lparr>total_queries = length queries,
               successful_queries = length successful,
               total_time = total_t,
               average_time = avg_time,
               success_rate = rate,
               average_confidence = avg_conf,
               results = rs\<rparr>)))"

definition analyze_performance ::
  "'w client \<Rightarrow> 'w clock \<Rightarrow> string list \<Rightarrow> 'w \<Rightarrow> (py_error + summary) \<times> 'w" where
  "analyze_performance query_documents time queries w =
     (case time w of (start_time, w0) \<Rightarrow>
      (case perf_loop query_documents time queries [] w0 of (rs, w1) \<Rightarrow>
       (case time w1 of (end_time, w2) \<Rightarrow>
          (build_summary queries rs (end_time - start_time), w2))))"

subsection \<open>Notions of the specification\<close>

text \<open>
  The specification's invariant of an outcome record, read on the keys of the dict:
  either the success fields (\<^verbatim>\<open>decision\<close>, \<^verbatim>\<open>confidence\<close>) are there, the record is
  flagged a success and has no \<^verbatim>\<open>error\<close>; or \<^verbatim>\<open>error\<close> is there, the record is
  flagged a failure and has no success field.
\<close>

definition exactly_one_populated :: "outcome \<Rightarrow> bool" where
  "exactly_one_populated r =
     (if success r
      then decision r \<noteq> None \<and> confidence r \<noteq> None \<and> error r = None
      else decision r = None \<and> confidence r = None \<and> error r \<noteq> None)"

text \<open>The sum of the \<^verbatim>\<open>response_time\<close> values of a list of outcome records.\<close>

fun sum_response_time :: "outcome list \<Rightarrow> real" where
  "sum_response_time [] = 0"
| "sum_response_time (r # rs) =
     (case response_time r of Some t \<Rightarrow> t | None \<Rightarrow> 0) + sum_response_time rs"

text \<open>A confidence that is a number.\<close>

definition is_number :: "json option \<Rightarrow> bool" where
  "is_number c = (case c of None \<Rightarrow> False | Some v \<Rightarrow> as_number v \<noteq> None)"




text \<open>
  A clock that never goes backwards: the reading that \<^verbatim>\<open>time.time()\<close> would return
  does not decrease when the clock is read or a request is made.
\<close>

definition clock_monotone :: "'w client \<Rightarrow> 'w clock \<Rightarrow> bool" where
  "clock_monotone query_documents time =
     ((\<forall>w. fst (time w) \<le> fst (time (snd (time w)))) \<and>
      (\<forall>q w. fst (time w) \<le> fst (time (snd (query_documents q w)))))"

subsection \<open>A scripted world for concrete runs\<close>

text \<open>
  The world is the current time. Reading the clock takes one unit of time and a request
  takes two. The scripted server answers by the text of the query.
\<close>

definition tick :: "real clock" where
  "tick t = (t, t + 1)"

definition answer :: "json \<Rightarrow> json" where
  "answer c = JObj [(''Decision'', JStr ''approved''), (''ConfidenceScore'', c)]"

text \<open>
  The numbers of the scripted answers are the doubles that the JSON parser makes of the
  texts \<^verbatim>\<open>0.5\<close>, \<^verbatim>\<open>0.9\<close> and \<^verbatim>\<open>0.7\<close>.
\<close>

definition scripted :: "real client" where
  "scripted q t =
     (if q = ''down'' then Inl (PyException ''connection refused'')
      else if q = ''null'' then Inr (answer JNull)
      else if q = ''bare'' then Inr (JObj [(''Decision'', JStr ''approved'')])
      else if q = ''a'' then Inr (answer (JFloat (round_double (5 / 10))))
      else if q = ''b'' then Inr (answer (JFloat (round_double (9 / 10))))
      else Inr (answer (JFloat (round_double (7 / 10)))),
      t + 2)"

text \<open>A server that is never reached, by an exception without a text: \<^verbatim>\<open>Exception()\<close>.\<close>

definition silent :: "real client" where
  "silent q t = (Inl (PyException []), t + 2)"

text \<open>
  Two standard outputs: one that takes every line, and one with the ASCII encoding, which
  cannot encode the first character of the text of line 180 and raises on every line.
\<close>

definition utf8_stdout :: "real printer" where
  "utf8_stdout i n q t = (None, t)"

definition ascii_stdout :: "real printer" where
  "ascii_stdout i n q t =
     (Some (PyException (quoted ''ascii'' @ '' codec can't encode character ''
              @ quoted ([CHR 0x5C] @ ''U0001f50d'')
              @ '' in position 0: ordinal not in range(128)'')), t)"

section \<open>Properties\<close>

subsection \<open>Rounding\<close>

text \<open>
  The two scaling functions, unfolded: a magnitude whose \<open>k\<close>-fold double lies in
  \<open>[2 ^ 52, 2 ^ 53)\<close> is rounded there. The doubles of the scripted world follow.
\<close>

lemma round_double_zero [simp]: "round_double 0 = 0"
  by (simp add: round_double_def)

lemma scale_down_small: "a < 2 ^ 53 \<Longrightarrow> scale_down a e = (a, e)"
  by (subst scale_down.simps) simp

lemma scale_up_steps:
  "2 ^ 52 \<le> a * 2 ^ k \<Longrightarrow> a * 2 ^ k < 2 ^ 53 \<Longrightarrow> - 1074 \<le> e - int k \<Longrightarrow>
     scale_up a e = (a * 2 ^ k, e - int k)"
proof (induction k arbitrary: a e)
  case 0
  then show ?case by (subst scale_up.simps) simp
next
  case (Suc k)
  have pos: "0 < a"
  proof (rule ccontr)
    assume "\<not> 0 < a"
    then have "a * 2 ^ Suc k \<le> 0" by (simp add: mult_le_0_iff)
    with Suc.prems(1) show False by simp
  qed
  have "a * 2 \<le> a * 2 ^ Suc k" using pos by simp
  with Suc.prems(2) have small: "a < 2 ^ 52" by simp
  from Suc.prems(3) have e: "- 1074 < e" by simp
  have "scale_up a e = scale_up (a * 2) (e - 1)"
    using small e by (subst scale_up.simps) simp
  also have "\<dots> = (a * 2 * 2 ^ k, e - 1 - int k)"
  proof (rule Suc.IH)
    show "2 ^ 52 \<le> a * 2 * 2 ^ k" using Suc.prems(1) by (simp add: mult.assoc)
    show "a * 2 * 2 ^ k < 2 ^ 53" using Suc.prems(2) by (simp add: mult.assoc)
    show "- 1074 \<le> e - 1 - int k" using Suc.prems(3) by simp
  qed
  finally show ?case by (simp add: mult.assoc)
qed

lemma round_double_scaled:
  assumes "2 ^ 52 \<le> \<bar>x\<bar> * 2 ^ k" and "\<bar>x\<bar> * 2 ^ k < 2 ^ 53" and "k \<le> 1074"
  shows "round_double x = sgn x * of_int (round_half_even (\<bar>x\<bar> * 2 ^ k)) / 2 ^ k"
proof -
  have nz: "x \<noteq> 0" using assms(1) by auto
  have "\<bar>x\<bar> \<le> \<bar>x\<bar> * 2 ^ k" by (simp add: mult_le_cancel_left1)
  with assms(2) have "\<bar>x\<bar> < 2 ^ 53" by simp
  then have d: "scale_down \<bar>x\<bar> 0 = (\<bar>x\<bar>, 0)" by (rule scale_down_small)
  have u: "scale_up \<bar>x\<bar> 0 = (\<bar>x\<bar> * 2 ^ k, 0 - int k)"
    using assms by (intro scale_up_steps) simp_all
  show ?thesis
    using nz by (simp add: round_double_def d u pow2_def)
qed

lemma float_add_zero [simp]: "float_add 0 y = y" "float_add x 0 = x"
  by (simp_all add: float_add_def)

lemma round_double_1: "round_double 1 = 1"
  by (simp add: round_double_scaled [where k = 52] round_half_even_def)

lemma round_double_2: "round_double 2 = 2"
  by (simp add: round_double_scaled [where k = 51] round_half_even_def)

lemma round_double_3: "round_double 3 = 3"
  by (simp add: round_double_scaled [where k = 51] round_half_even_def)

lemma round_double_half: "round_double (1 / 2) = 1 / 2"
  by (simp add: round_double_scaled [where k = 53] round_half_even_def)

lemma round_double_quarter: "round_double (1 / 4) = 1 / 4"
  by (simp add: round_double_scaled [where k = 54] round_half_even_def)

lemma round_double_9_10: "round_double (9 / 10) = 8106479329266893 / 9007199254740992"
  by (simp add: round_double_scaled [where k = 53] round_half_even_def)

lemma round_double_7_10: "round_double (7 / 10) = 3152519739159347 / 4503599627370496"
  by (simp add: round_double_scaled [where k = 53] round_half_even_def)

lemma round_double_2_3: "round_double (2 / 3) = 6004799503160661 / 9007199254740992"
  by (simp add: round_double_scaled [where k = 53] round_half_even_def)

lemma float_add_05_09:
  "float_add (1 / 2) (8106479329266893 / 9007199254740992)
     = 3152519739159347 / 2251799813685248"
  by (simp add: float_add_def round_double_scaled [where k = 52] round_half_even_def)

lemma float_add_14_07:
  "float_add (3152519739159347 / 2251799813685248) (3152519739159347 / 4503599627370496)
     = 1182194902184755 / 562949953421312"
  by (simp add: float_add_def round_double_scaled [where k = 51] round_half_even_def)

lemma round_double_21_3:
  "round_double (1182194902184755 / 1688849860263936) = 6305039478318693 / 9007199254740992"
  by (simp add: round_double_scaled [where k = 53] round_half_even_def)

lemmas number_facts =
  round_double_1 round_double_2 round_double_3 round_double_half round_double_quarter
  round_double_9_10 round_double_7_10 round_double_2_3 float_add_05_09 float_add_14_07
  round_double_21_3

subsection \<open>The loops, unrolled from the front\<close>

text \<open>
  Both loops append to the list they were given and never look at it, so a run over
  \<open>q # qs\<close> or \<open>xs @ ys\<close> is the run over the parts, the second one started in the
  world the first one left; for \<^verbatim>\<open>batch_queries\<close>, as long as no \<^verbatim>\<open>print\<close> has
  raised.
\<close>

lemma prepend_Inl [simp]: "prepend res (Inl e, w) = (Inl e, w)"
  by (simp add: prepend_def)

lemma prepend_Inr [simp]: "prepend res (Inr rs, w) = (Inr (res @ rs), w)"
  by (simp add: prepend_def)

lemma prepend_Nil [simp]: "prepend [] x = x"
  by (cases x; cases "fst x") (auto simp: prepend_def split: sum.splits)

lemma prepend_prepend [simp]: "prepend a (prepend b x) = prepend (a @ b) x"
  by (cases x) (auto simp: prepend_def split: sum.splits)

lemma batch_loop_acc:
  "batch_loop qd pr n i qs res w = prepend res (batch_loop qd pr n i qs [] w)"
proof (induction qs arbitrary: res w i)
  case Nil
  show ?case by simp
next
  case (Cons q qs)
  obtain p w1 where pr: "pr i n q w = (p, w1)" by (cases "pr i n q w")
  show ?case
  proof (cases p)
    case (Some e)
    with pr show ?thesis by simp
  next
    case None
    obtain r w' where step: "batch_step qd q w1 = (r, w')" by (cases "batch_step qd q w1")
    let ?rest = "batch_loop qd pr n (Suc i) qs [] w'"
    have "batch_loop qd pr n i (q # qs) res w = batch_loop qd pr n (Suc i) qs (res @ [r]) w'"
      using pr None step by simp
    also have "\<dots> = prepend (res @ [r]) ?rest"
      by (rule Cons.IH)
    finally have a: "batch_loop qd pr n i (q # qs) res w = prepend (res @ [r]) ?rest" .
    have "batch_loop qd pr n i (q # qs) [] w = batch_loop qd pr n (Suc i) qs [r] w'"
      using pr None step by simp
    also have "\<dots> = prepend [r] ?rest"
      by (rule Cons.IH)
    finally have b: "batch_loop qd pr n i (q # qs) [] w = prepend [r] ?rest" .
    show ?thesis by (simp only: a b prepend_prepend)
  qed
qed

lemma batch_loop_Cons:
  "pr i n q w = (None, w1) \<Longrightarrow>
   batch_loop qd pr n i (q # qs) [] w =
     prepend [fst (batch_step qd q w1)]
       (batch_loop qd pr n (Suc i) qs [] (snd (batch_step qd q w1)))"
  by (cases "batch_step qd q w1")
     (simp add: batch_loop_acc [of qd pr n "Suc i" qs "[r]" for r])

lemma batch_loop_Cons_Inr:
  assumes "batch_loop qd pr n i (q # qs) [] w = (Inr rs, w')"
  obtains w1 rs' where "pr i n q w = (None, w1)"
    and "batch_loop qd pr n (Suc i) qs [] (snd (batch_step qd q w1)) = (Inr rs', w')"
    and "rs = fst (batch_step qd q w1) # rs'"
proof -
  obtain p w1 where pr: "pr i n q w = (p, w1)" by (cases "pr i n q w")
  from assms pr have p: "p = None" by (cases p) simp_all
  let ?rest = "batch_loop qd pr n (Suc i) qs [] (snd (batch_step qd q w1))"
  from assms pr p have "prepend [fst (batch_step qd q w1)] ?rest = (Inr rs, w')"
    by (simp only: batch_loop_Cons)
  then obtain rs' where "?rest = (Inr rs', w')" and "rs = fst (batch_step qd q w1) # rs'"
    by (cases ?rest; cases "fst ?rest") (auto simp: prepend_def)
  with pr p that show thesis by blast
qed

lemma batch_loop_append:
  "batch_loop qd pr n i xs [] w = (Inr rs1, w1) \<Longrightarrow>
   batch_loop qd pr n i (xs @ ys) [] w =
     prepend rs1 (batch_loop qd pr n (i + length xs) ys [] w1)"
proof (induction xs arbitrary: i w rs1)
  case Nil
  then show ?case by simp
next
  case (Cons q xs)
  from Cons.prems obtain w0 rs' where pr: "pr i n q w = (None, w0)"
    and xs: "batch_loop qd pr n (Suc i) xs [] (snd (batch_step qd q w0)) = (Inr rs', w1)"
    and rs1: "rs1 = fst (batch_step qd q w0) # rs'"
    by (rule batch_loop_Cons_Inr)
  have "batch_loop qd pr n i ((q # xs) @ ys) [] w =
          prepend [fst (batch_step qd q w0)]
            (batch_loop qd pr n (Suc i) (xs @ ys) [] (snd (batch_step qd q w0)))"
    using pr by (simp only: append_Cons batch_loop_Cons)
  also have "batch_loop qd pr n (Suc i) (xs @ ys) [] (snd (batch_step qd q w0)) =
               prepend rs' (batch_loop qd pr n (Suc i + length xs) ys [] w1)"
    by (rule Cons.IH [OF xs])
  finally show ?case by (simp add: rs1)
qed

lemma query_batch_step: "query (fst (batch_step qd q w)) = q"
  by (simp add: batch_step_def batch_success_def batch_failure_def
      split: prod.splits sum.splits)

lemma map_query_batch_loop:
  "batch_loop qd pr n i qs [] w = (Inr rs, w') \<Longrightarrow> map query rs = qs"
proof (induction qs arbitrary: i w rs)
  case Nil
  then show ?case by simp
next
  case (Cons q qs)
  from Cons.prems obtain w0 rs' where
    qs: "batch_loop qd pr n (Suc i) qs [] (snd (batch_step qd q w0)) = (Inr rs', w')"
    and rs: "rs = fst (batch_step qd q w0) # rs'"
    by (rule batch_loop_Cons_Inr)
  from Cons.IH [OF qs] rs show ?case by (simp add: query_batch_step)
qed

lemma batch_loop_returns:
  "\<forall>i q v. fst (pr i n q v) = None \<Longrightarrow> \<exists>rs w'. batch_loop qd pr n i qs [] w = (Inr rs, w')"
proof (induction qs arbitrary: i w)
  case Nil
  show ?case by simp
next
  case (Cons q qs)
  from Cons.prems have "fst (pr i n q w) = None" by simp
  then obtain w0 where pr: "pr i n q w = (None, w0)" by (cases "pr i n q w") simp
  from Cons.IH [OF Cons.prems, of "Suc i" "snd (batch_step qd q w0)"]
  obtain rs w' where "batch_loop qd pr n (Suc i) qs [] (snd (batch_step qd q w0)) = (Inr rs, w')"
    by blast
  then show ?case
    using batch_loop_Cons [of pr i n q w w0 qd qs] pr by simp
qed


lemma perf_loop_acc:
  "perf_loop qd clk qs res w =
     (res @ fst (perf_loop qd clk qs [] w), snd (perf_loop qd clk qs [] w))"
proof (induction qs arbitrary: res w)
  case Nil
  show ?case by simp
next
  case (Cons q qs)
  obtain r w' where step: "perf_step qd clk q w = (r, w')" by (cases "perf_step qd clk q w")
  have "perf_loop qd clk (q # qs) res w = perf_loop qd clk qs (res @ [r]) w'"
    by (simp add: step)
  also have "\<dots> = ((res @ [r]) @ fst (perf_loop qd clk qs [] w'), snd (perf_loop qd clk qs [] w'))"
    by (rule Cons.IH)
  also have "\<dots> = (res @ fst (perf_loop qd clk qs [r] w'), snd (perf_loop qd clk qs [r] w'))"
    by (simp add: Cons.IH [of "[r]" w'])
  finally show ?case by (simp add: step)
qed

lemma perf_loop_Cons:
  "perf_loop qd clk (q # qs) [] w =
     (fst (perf_step qd clk q w) # fst (perf_loop qd clk qs [] (snd (perf_step qd clk q w))),
      snd (perf_loop qd clk qs [] (snd (perf_step qd clk q w))))"
  by (cases "perf_step qd clk q w")
     (simp add: perf_loop_acc [of qd clk qs "[r]" for r])

lemma perf_loop_append:
  "perf_loop qd clk (xs @ ys) [] w =
     (fst (perf_loop qd clk xs [] w) @ fst (perf_loop qd clk ys [] (snd (perf_loop qd clk xs [] w))),
      snd (perf_loop qd clk ys [] (snd (perf_loop qd clk xs [] w))))"
  by (induction xs arbitrary: w) (simp_all add: perf_loop_Cons del: perf_loop.simps(2))

lemma query_perf_step: "query (fst (perf_step qd clk q w)) = q"
  by (simp add: perf_step_def perf_success_def perf_failure_def
      split: prod.splits sum.splits)

lemma map_query_perf_loop: "map query (fst (perf_loop qd clk qs [] w)) = qs"
  by (induction qs arbitrary: w) (simp_all add: perf_loop_Cons query_perf_step del: perf_loop.simps(2))

subsection \<open>The shape of the records\<close>

text \<open>
  Each iteration appends one of the two dict literals of its loop, whatever the client
  and the clock do.
\<close>

lemma perf_step_cases:
  "(\<exists>d c t. fst (perf_step qd clk q w) =
      \<lparr>query = q, decision = Some d, confidence = Some c, error = None,
       response_time = Some t, success = True\<rparr>) \<or>
   (\<exists>e t. fst (perf_step qd clk q w) =
      \<lparr>query = q, decision = None, confidence = None, error = Some (str e),
       response_time = Some t, success = False\<rparr>)"
  by (auto simp: perf_step_def perf_success_def perf_failure_def
      split: prod.splits sum.splits)

lemma batch_step_cases:
  "(\<exists>d c. fst (batch_step qd q w) =
      \<lparr>query = q, decision = Some d, confidence = Some c, error = None,
       response_time = None, success = True\<rparr>) \<or>
   (\<exists>e. fst (batch_step qd q w) =
      \<lparr>query = q, decision = None, confidence = None, error = Some (str e),
       response_time = None, success = False\<rparr>)"
  by (auto simp: batch_step_def batch_success_def batch_failure_def
      split: prod.splits sum.splits)

lemma perf_loop_records:
  "r \<in> set (fst (perf_loop qd clk qs [] w)) \<Longrightarrow>
     exactly_one_populated r \<and> response_time r \<noteq> None"
proof (induction qs arbitrary: w)
  case Nil
  then show ?case by simp
next
  case (Cons q qs)
  from Cons.prems consider "r = fst (perf_step qd clk q w)"
    | "r \<in> set (fst (perf_loop qd clk qs [] (snd (perf_step qd clk q w))))"
    by (auto simp: perf_loop_Cons simp del: perf_loop.simps(2))
  then show ?case
  proof cases
    case 1
    with perf_step_cases [of qd clk q w] show ?thesis
      by (auto simp: exactly_one_populated_def)
  next
    case 2
    then show ?thesis by (rule Cons.IH)
  qed
qed

lemma perf_step_raise:
  "qd q (snd (clk w)) = (Inl e, w') \<Longrightarrow>
     perf_step qd clk q w = (perf_failure q e (fst (clk w') - fst (clk w)), snd (clk w'))"
  by (cases "clk w"; cases "clk w'") (simp add: perf_step_def)

lemma batch_step_raise:
  "qd q w = (Inl e, w') \<Longrightarrow> batch_step qd q w = (batch_failure q e, w')"
  by (simp add: batch_step_def)

lemma perf_all_raise:
  "\<forall>q \<in> set qs. \<forall>v. isl (fst (qd q v)) \<Longrightarrow>
   r \<in> set (fst (perf_loop qd clk qs [] w)) \<Longrightarrow>
     \<not> success r \<and> (\<exists>e v. fst (qd (query r) v) = Inl e \<and> error r = Some (str e))"
proof (induction qs arbitrary: w)
  case Nil
  then show ?case by simp
next
  case (Cons q qs)
  from Cons.prems(2) consider "r = fst (perf_step qd clk q w)"
    | "r \<in> set (fst (perf_loop qd clk qs [] (snd (perf_step qd clk q w))))"
    by (auto simp: perf_loop_Cons simp del: perf_loop.simps(2))
  then show ?case
  proof cases
    case 1
    from Cons.prems(1) have "isl (fst (qd q (snd (clk w))))" by simp
    then obtain e w' where call: "qd q (snd (clk w)) = (Inl e, w')"
      by (cases "qd q (snd (clk w))") (auto simp: isl_def)
    have "r = perf_failure q e (fst (clk w') - fst (clk w))"
      using 1 perf_step_raise [of qd q clk w e w'] call by simp
    moreover have "fst (qd q (snd (clk w))) = Inl e" using call by simp
    ultimately show ?thesis by (auto simp: perf_failure_def)
  next
    case 2
    from Cons.prems(1) have "\<forall>q \<in> set qs. \<forall>v. isl (fst (qd q v))" by simp
    from Cons.IH [OF this 2] show ?thesis .
  qed
qed

lemma batch_loop_records:
  "batch_loop qd pr n i qs [] w = (Inr rs, w') \<Longrightarrow> r \<in> set rs \<Longrightarrow>
     exactly_one_populated r \<and> response_time r = None"
proof (induction qs arbitrary: i w rs)
  case Nil
  then show ?case by simp
next
  case (Cons q qs)
  from Cons.prems(1) obtain w0 rs' where
    qs: "batch_loop qd pr n (Suc i) qs [] (snd (batch_step qd q w0)) = (Inr rs', w')"
    and rs: "rs = fst (batch_step qd q w0) # rs'"
    by (rule batch_loop_Cons_Inr)
  from Cons.prems(2) rs consider "r = fst (batch_step qd q w0)" | "r \<in> set rs'" by auto
  then show ?case
  proof cases
    case 1
    with batch_step_cases [of qd q w0] show ?thesis
      by (auto simp: exactly_one_populated_def)
  next
    case 2
    with qs show ?thesis by (rule Cons.IH)
  qed
qed

lemma batch_all_raise:
  "\<forall>q \<in> set qs. \<forall>v. isl (fst (qd q v)) \<Longrightarrow>
   batch_loop qd pr n i qs [] w = (Inr rs, w') \<Longrightarrow> r \<in> set rs \<Longrightarrow>
     \<not> success r \<and> (\<exists>e v. fst (qd (query r) v) = Inl e \<and> error r = Some (str e))"
proof (induction qs arbitrary: i w rs)
  case Nil
  then show ?case by simp
next
  case (Cons q qs)
  from Cons.prems(2) obtain w0 rs' where
    qs: "batch_loop qd pr n (Suc i) qs [] (snd (batch_step qd q w0)) = (Inr rs', w')"
    and rs: "rs = fst (batch_step qd q w0) # rs'"
    by (rule batch_loop_Cons_Inr)
  from Cons.prems(3) rs consider "r = fst (batch_step qd q w0)" | "r \<in> set rs'" by auto
  then show ?case
  proof cases
    case 1
    from Cons.prems(1) have "isl (fst (qd q w0))" by simp
    then obtain e w1 where call: "qd q w0 = (Inl e, w1)"
      by (cases "qd q w0") (auto simp: isl_def)
    have "r = batch_failure q e" using 1 batch_step_raise [of qd q w0 e w1] call by simp
    moreover have "fst (qd q w0) = Inl e" using call by simp
    ultimately show ?thesis by (auto simp: batch_failure_def)
  next
    case 2
    from Cons.prems(1) have "\<forall>q \<in> set qs. \<forall>v. isl (fst (qd q v))" by simp
    from Cons.IH [OF this qs 2] show ?thesis .
  qed
qed

subsection \<open>The aggregation\<close>

lemma analyze_performance_unfold:
  "analyze_performance qd clk qs w =
     (build_summary qs (fst (perf_loop qd clk qs [] (snd (clk w))))
        (fst (clk (snd (perf_loop qd clk qs [] (snd (clk w))))) - fst (clk w)),
      snd (clk (snd (perf_loop qd clk qs [] (snd (clk w))))))"
  by (simp add: analyze_performance_def split: prod.splits)

lemma is_number_simps [simp]:
  "is_number (Some (JInt k))" "is_number (Some (JFloat x))" "is_number (Some (JBool b))"
  "\<not> is_number None" "\<not> is_number (Some JNull)" "\<not> is_number (Some (JStr s))"
  "\<not> is_number (Some (JArr xs))" "\<not> is_number (Some (JObj kvs))"
  by (simp_all add: is_number_def)

lemma py_add_number:
  "is_number (Some c) \<Longrightarrow> \<exists>x. as_number c = Some x \<and> py_add acc c = Inr (num_add acc x)"
  by (auto simp: is_number_def py_add_def)

lemma py_add_TypeError: "\<not> is_number (Some c) \<Longrightarrow> py_add acc c = Inl TypeError"
  by (simp add: is_number_def py_add_def)

lemma num_add_zero [simp]: "num_add acc (PInt 0) = acc"
  by (cases acc) (simp_all add: float_add_def)

lemma num_truediv_zero [simp]: "0 < n \<Longrightarrow> num_truediv (PInt 0) n = Inr 0"
  by (simp add: num_truediv_def)

lemma num_truediv_Inr: "0 < n \<Longrightarrow> \<exists>v. num_truediv a n = Inr v"
  by (cases a) (simp_all add: num_truediv_def)

lemma build_summary_Nil: "build_summary [] rs t = Inl ZeroDivisionError"
  by (simp add: build_summary_def truediv_def)

lemma build_summary_Inr:
  assumes "build_summary qs rs t = Inr s"
  shows "qs \<noteq> []"
    and "total_queries s = length qs"
    and "successful_queries s = length (filter success rs)"
    and "total_time s = t"
    and "average_time s = t / real (length qs)"
    and "results s = rs"
    and "filter success rs = [] \<Longrightarrow> average_confidence s = 0"
    and "filter success rs \<noteq> [] \<Longrightarrow>
           \<exists>v. sum_confidence (filter success rs) (PInt 0) = Inr v \<and>
               num_truediv v (length (filter success rs)) = Inr (average_confidence s)"
  using assms
  by (auto simp: build_summary_def truediv_def Let_def split: if_splits sum.splits)


lemma sum_confidence_TypeError:
  "\<forall>r \<in> set rs. confidence r \<noteq> None \<Longrightarrow>
   \<exists>r \<in> set rs. \<not> is_number (confidence r) \<Longrightarrow>
     sum_confidence rs acc = Inl TypeError"
proof (induction rs arbitrary: acc)
  case Nil
  then show ?case by simp
next
  case (Cons r rs)
  from Cons.prems(1) obtain c where c: "confidence r = Some c" by auto
  show ?case
  proof (cases "is_number (Some c)")
    case False
    then have "py_add acc c = Inl TypeError" by (rule py_add_TypeError)
    with c show ?thesis by simp
  next
    case True
    from py_add_number [OF True, of acc] obtain acc' where a: "py_add acc c = Inr acc'"
      by blast
    from True c Cons.prems(2) have ex: "\<exists>r \<in> set rs. \<not> is_number (confidence r)" by auto
    from Cons.prems(1) have "\<forall>r \<in> set rs. confidence r \<noteq> None" by simp
    from Cons.IH [OF this ex] c a show ?thesis by simp
  qed
qed

lemma build_summary_no_success:
  "qs \<noteq> [] \<Longrightarrow> filter success rs = [] \<Longrightarrow>
     build_summary qs rs t =
       Inr \<lparr>total_queries = length qs, successful_queries = 0, total_time = t,
            average_time = t / real (length qs), success_rate = 0,
            average_confidence = 0, results = rs\<rparr>"
  by (simp add: build_summary_def truediv_def)

lemma build_summary_sum_raises:
  assumes "qs \<noteq> []" and "filter success rs \<noteq> []"
    and "sum_confidence (filter success rs) (PInt 0) = Inl e"
  shows "build_summary qs rs t = Inl e"
proof -
  from assms(1) obtain v where
    "num_truediv (PInt (int (length (filter success rs)))) (length qs) = Inr v"
    using num_truediv_Inr [of "length qs"] by auto
  with assms show ?thesis by (simp add: build_summary_def truediv_def)
qed





subsection \<open>Elapsed time under a clock that never goes backwards\<close>

lemma perf_step_time:
  assumes "clock_monotone qd clk"
  shows "(case response_time (fst (perf_step qd clk q w)) of Some t \<Rightarrow> t | None \<Rightarrow> 0)
           \<le> fst (clk (snd (perf_step qd clk q w))) - fst (clk w)"
proof -
  have m: "\<And>v. fst (clk v) \<le> fst (clk (snd (clk v)))"
    using assms by (simp add: clock_monotone_def)
  obtain t0 w1 where c0: "clk w = (t0, w1)" by (cases "clk w")
  obtain res w2 where c1: "qd q w1 = (res, w2)" by (cases "qd q w1")
  obtain t w3 where c2: "clk w2 = (t, w3)" by (cases "clk w2")
  obtain t' w4 where c3: "clk w3 = (t', w4)" by (cases "clk w3")
  have a: "t \<le> t'" using m [of w2] c2 c3 by simp
  have b: "t' \<le> fst (clk w4)" using m [of w3] c3 by simp
  show ?thesis
    using a b c0 c1 c2 c3
    by (cases res)
       (auto simp: perf_step_def perf_failure_def perf_success_def split: sum.splits)
qed

lemma perf_loop_time:
  assumes "clock_monotone qd clk"
  shows "sum_response_time (fst (perf_loop qd clk qs [] w))
           \<le> fst (clk (snd (perf_loop qd clk qs [] w))) - fst (clk w)"
proof (induction qs arbitrary: w)
  case Nil
  show ?case by simp
next
  case (Cons q qs)
  let ?w' = "snd (perf_step qd clk q w)"
  have "sum_response_time (fst (perf_loop qd clk (q # qs) [] w)) =
          (case response_time (fst (perf_step qd clk q w)) of Some t \<Rightarrow> t | None \<Rightarrow> 0)
          + sum_response_time (fst (perf_loop qd clk qs [] ?w'))"
    by (simp add: perf_loop_Cons del: perf_loop.simps(2))
  also have "\<dots> \<le> (fst (clk ?w') - fst (clk w))
                 + (fst (clk (snd (perf_loop qd clk qs [] ?w'))) - fst (clk ?w'))"
    by (rule add_mono [OF perf_step_time [OF assms] Cons.IH])
  also have "\<dots> = fst (clk (snd (perf_loop qd clk (q # qs) [] w))) - fst (clk w)"
    by (simp add: perf_loop_Cons del: perf_loop.simps(2))
  finally show ?case .
qed

subsection \<open>Concrete runs in the scripted world\<close>

lemmas run_defs =
  analyze_performance_def batch_queries_def batch_step_def batch_success_def
  batch_failure_def perf_step_def perf_success_def perf_failure_def build_summary_def
  truediv_def num_truediv_def py_add_def tick_def scripted_def silent_def
  answer_def utf8_stdout_def ascii_stdout_def number_facts


lemma run_mixed:
  "analyze_performance scripted tick [''a'', ''down'', ''bare''] 0 =
     (Inr \<lparr>total_queries = 3, successful_queries = 2, total_time = 13,
           average_time = 13 / 3,
           success_rate = 6004799503160661 / 9007199254740992,
           average_confidence = 1 / 4,
           results =
             [\<lparr>query = ''a'', decision = Some (JStr ''approved''),
               confidence = Some (JFloat (1 / 2)), error = None,
               response_time = Some 3, success = True\<rparr>,
              \<lparr>query = ''down'', decision = None, confidence = None,
               error = Some ''connection refused'', response_time = Some 3,
               success = False\<rparr>,
              \<lparr>query = ''bare'', decision = Some (JStr ''approved''),
               confidence = Some (JInt 0), error = None,
               response_time = Some 3, success = True\<rparr>]\<rparr>, 14)"
  by (simp add: run_defs)

lemma batch_mixed:
  "batch_queries scripted utf8_stdout [''a'', ''down'', ''bare''] 0 =
     (Inr [\<lparr>query = ''a'', decision = Some (JStr ''approved''),
            confidence = Some (JFloat (1 / 2)), error = None,
            response_time = None, success = True\<rparr>,
           \<lparr>query = ''down'', decision = None, confidence = None,
            error = Some ''connection refused'', response_time = None,
            success = False\<rparr>,
           \<lparr>query = ''bare'', decision = Some (JStr ''approved''),
            confidence = Some JNull, error = None, response_time = None,
            success = True\<rparr>], 6)"
  by (simp add: run_defs)

lemma clock_monotone_scripted: "clock_monotone scripted tick"
  by (simp add: clock_monotone_def tick_def scripted_def)

section \<open>The claims\<close>

subsection \<open>One outcome per query\<close>




subsection \<open>The empty batch\<close>

text \<open>
  Claim C2. For the empty list the summary should be all zeros, with no division by
  zero. The code guards the mean of the confidences (\<^verbatim>\<open>... if successful_queries else 0\<close>,
  line 234) but not the two divisions by \<^verbatim>\<open>len(queries)\<close> of lines 232 and 233: on
  the empty list \<^verbatim>\<open>analyze_performance\<close> reads the clock twice and raises
  ZeroDivisionError at line 232, for every client and clock. No summary is returned.
\<close>

theorem C2_empty_batch_raises:
  "analyze_performance qd clk [] w = (Inl ZeroDivisionError, snd (clk (snd (clk w))))"
  by (simp add: analyze_performance_unfold build_summary_Nil)

subsection \<open>Total and average time\<close>

text \<open>
  In the scripted world a single successful query has a response time of 3, and the
  summary's \<^verbatim>\<open>total_time\<close> is 5: the clock is read once before the loop and once
  after it (lines 200 and 225), and the time between those readings and the timed call
  counts too. So \<^verbatim>\<open>total_time\<close> is not the sum of the response times.
\<close>

theorem C3_total_time_counterexample:
  "\<not> isl (fst (analyze_performance scripted tick [''a''] 0)) \<and>
   total_time (projr (fst (analyze_performance scripted tick [''a''] 0))) = 5 \<and>
   sum_response_time (results (projr (fst (analyze_performance scripted tick [''a''] 0)))) = 3"
  by (simp add: run_defs)

text \<open>
  Claim C3, as the code has it. Whenever \<^verbatim>\<open>analyze_performance\<close> returns a summary,
  \<^verbatim>\<open>total_time\<close> is the reading of the clock after the loop minus the reading before
  it; the batch is not empty, \<^verbatim>\<open>total_queries\<close> is its length and
  \<^verbatim>\<open>average_time\<close> is \<^verbatim>\<open>total_time\<close> divided by \<^verbatim>\<open>total_queries\<close>; and when
  the clock never goes backwards, the sum of the response times of all records (failures
  included) is at most \<^verbatim>\<open>total_time\<close>.
\<close>

theorem C3_total_time_is_elapsed_time:
  assumes "fst (analyze_performance qd clk qs w) = Inr s"
  shows "total_time s =
           fst (clk (snd (perf_loop qd clk qs [] (snd (clk w))))) - fst (clk w) \<and>
         qs \<noteq> [] \<and> total_queries s = length qs \<and>
         average_time s = total_time s / real (total_queries s) \<and>
         (clock_monotone qd clk \<longrightarrow> sum_response_time (results s) \<le> total_time s)"
proof -
  let ?w0 = "snd (clk w)"
  let ?rs = "fst (perf_loop qd clk qs [] ?w0)"
  let ?w1 = "snd (perf_loop qd clk qs [] ?w0)"
  let ?t = "fst (clk ?w1) - fst (clk w)"
  from assms have b: "build_summary qs ?rs ?t = Inr s"
    by (simp add: analyze_performance_unfold)
  have tt: "total_time s = ?t" using b by (rule build_summary_Inr(4))
  have ne: "qs \<noteq> []" using b by (rule build_summary_Inr(1))
  have tq: "total_queries s = length qs" using b by (rule build_summary_Inr(2))
  have av: "average_time s = ?t / real (length qs)" using b by (rule build_summary_Inr(5))
  have rs: "results s = ?rs" using b by (rule build_summary_Inr(6))
  have mono: "sum_response_time (results s) \<le> total_time s" if m: "clock_monotone qd clk"
  proof -
    have "sum_response_time ?rs \<le> fst (clk ?w1) - fst (clk ?w0)"
      by (rule perf_loop_time [OF m])
    moreover have "fst (clk w) \<le> fst (clk ?w0)"
      using m by (simp add: clock_monotone_def)
    ultimately show ?thesis using tt rs by simp
  qed
  from tt ne tq av mono show ?thesis by simp
qed

theorem C3_total_time_is_elapsed_time_witness:
  "total_time (projr (fst (analyze_performance scripted tick [''a'', ''down'', ''bare''] 0))) = 13 \<and>
   average_time (projr (fst (analyze_performance scripted tick [''a'', ''down'', ''bare''] 0)))
     = 13 / 3 \<and>
   sum_response_time
     (results (projr (fst (analyze_performance scripted tick [''a'', ''down'', ''bare''] 0))))
     \<le> 13"
proof -
  let ?run = "analyze_performance scripted tick [''a'', ''down'', ''bare''] 0"
  have "fst ?run = Inr (projr (fst ?run))" by (simp add: run_mixed)
  from C3_total_time_is_elapsed_time [OF this] clock_monotone_scripted
  have "average_time (projr (fst ?run))
          = total_time (projr (fst ?run)) / real (total_queries (projr (fst ?run))) \<and>
        sum_response_time (results (projr (fst ?run))) \<le> total_time (projr (fst ?run))"
    by blast
  then show ?thesis by (simp add: run_mixed)
qed

subsection \<open>The invariant of an outcome record\<close>

text \<open>
  \<^verbatim>\<open>batch_queries\<close> does not time its calls: the record of a successful query has
  no \<^verbatim>\<open>response_time\<close>.
\<close>

theorem C4_batch_queries_counterexample:
  "fst (batch_queries scripted utf8_stdout [''a''] 0) =
     Inr [\<lparr>query = ''a'', decision = Some (JStr ''approved''),
           confidence = Some (JFloat (1 / 2)), error = None,
           response_time = None, success = True\<rparr>]"
  by (simp add: run_defs)

text \<open>
  Claim C4, as the code has it. In every record of either method exactly one of the
  success fields (\<^verbatim>\<open>decision\<close> and \<^verbatim>\<open>confidence\<close>) and the \<^verbatim>\<open>error\<close> field is
  populated, in agreement with the \<^verbatim>\<open>success\<close> flag. Every record of
  \<^verbatim>\<open>analyze_performance\<close> has a \<^verbatim>\<open>response_time\<close>, successes and failures alike;
  no record that \<^verbatim>\<open>batch_queries\<close> returns has one.
\<close>

theorem C4_outcome_invariant:
  "(\<forall>r \<in> set (fst (perf_loop qd clk qs [] w)).
      exactly_one_populated r \<and> response_time r \<noteq> None) \<and>
   (batch_queries qd pr qs v = (Inr rs, v') \<longrightarrow>
      (\<forall>r \<in> set rs. exactly_one_populated r \<and> response_time r = None))"
  using perf_loop_records [of _ qd clk qs w]
    batch_loop_records [of qd pr "length qs" 1 qs v rs v']
  unfolding batch_queries_def by blast

theorem C4_outcome_invariant_witness:
  "perf_failure ''down'' (PyException ''connection refused'') 3
     \<in> set (fst (perf_loop scripted tick [''a'', ''down'', ''bare''] [] 1)) \<and>
   exactly_one_populated (perf_failure ''down'' (PyException ''connection refused'') 3) \<and>
   response_time (perf_failure ''down'' (PyException ''connection refused'') 3) = Some 3 \<and>
   batch_failure ''down'' (PyException ''connection refused'')
     \<in> set (projr (fst (batch_queries scripted utf8_stdout [''a'', ''down'', ''bare''] 0))) \<and>
   exactly_one_populated (batch_failure ''down'' (PyException ''connection refused'')) \<and>
   response_time (batch_failure ''down'' (PyException ''connection refused'')) = None"
proof -
  let ?run = "batch_queries scripted utf8_stdout [''a'', ''down'', ''bare''] 0"
  have ret: "?run = (Inr (projr (fst ?run)), 6)" by (simp add: batch_mixed)
  have p: "perf_failure ''down'' (PyException ''connection refused'') 3
             \<in> set (fst (perf_loop scripted tick [''a'', ''down'', ''bare''] [] 1))"
    by (simp add: run_defs)
  have b: "batch_failure ''down'' (PyException ''connection refused'')
             \<in> set (projr (fst ?run))"
    by (simp add: batch_mixed batch_failure_def)
  from C4_outcome_invariant
         [of scripted tick "[''a'', ''down'', ''bare'']" 1 utf8_stdout 0 "projr (fst ?run)" 6]
       ret p b
  show ?thesis by (auto simp: perf_failure_def)
qed

subsection \<open>The average confidence\<close>




subsection \<open>A failing query does not abort the batch\<close>

text \<open>
  Claim C6. When the call for a query \<open>q\<close> raises an exception \<open>e\<close>, at any position
  \<open>xs @ q # ys\<close> of the batch, the loop appends for \<open>q\<close> the record with
  \<^verbatim>\<open>success == False\<close>, \<^verbatim>\<open>error == str(e)\<close> and no success field, after the records
  of \<open>xs\<close>, and goes on with \<open>ys\<close> exactly as the loop over \<open>ys\<close> alone would, from
  the world that the failed call left. This holds for \<^verbatim>\<open>batch_queries\<close> (where the
  iteration for \<open>q\<close> is reached when the loop over \<open>xs\<close> has returned and the
  \<^verbatim>\<open>print\<close> for \<open>q\<close> has not raised) and for the loop of \<^verbatim>\<open>analyze_performance\<close>.
  No failure of a call aborts the batch: for every client, \<^verbatim>\<open>batch_queries\<close> returns
  one record per query whenever no \<^verbatim>\<open>print\<close> raises, and the loop of
  \<^verbatim>\<open>analyze_performance\<close> always does.
\<close>

theorem C6_failure_recorded_and_batch_continues:
  "(batch_loop qd pr (length (xs @ q # ys)) 1 xs [] w = (Inr rs1, w1) \<and>
    pr (Suc (length xs)) (length (xs @ q # ys)) q w1 = (None, w2) \<and>
    qd q w2 = (Inl e, w3) \<longrightarrow>
      batch_queries qd pr (xs @ q # ys) w =
        prepend (rs1 @ [\<lparr>query = q, decision = None, confidence = None,
                          error = Some (str e), response_time = None, success = False\<rparr>])
          (batch_loop qd pr (length (xs @ q # ys)) (Suc (Suc (length xs))) ys [] w3)) \<and>
   (qd q (snd (clk (snd (perf_loop qd clk xs [] v)))) = (Inl e, v') \<longrightarrow>
      perf_loop qd clk (xs @ q # ys) [] v =
        (fst (perf_loop qd clk xs [] v)
           @ \<lparr>query = q, decision = None, confidence = None, error = Some (str e),
              response_time =
                Some (fst (clk v') - fst (clk (snd (perf_loop qd clk xs [] v)))),
              success = False\<rparr>
           # fst (perf_loop qd clk ys [] (snd (clk v'))),
         snd (perf_loop qd clk ys [] (snd (clk v'))))) \<and>
   ((\<forall>i n q u. fst (pr i n q u) = None) \<longrightarrow>
      (\<exists>rs u. batch_queries qd pr qs w = (Inr rs, u) \<and> length rs = length qs)) \<and>
   length (fst (perf_loop qd clk qs [] v)) = length qs"
proof -
  let ?n = "length (xs @ q # ys)"
  let ?fail = "\<lparr>query = q, decision = None, confidence = None,
                 error = Some (str e), response_time = None, success = False\<rparr>"
  have a: "batch_queries qd pr (xs @ q # ys) w =
        prepend (rs1 @ [?fail]) (batch_loop qd pr ?n (Suc (Suc (length xs))) ys [] w3)"
    if pre: "batch_loop qd pr ?n 1 xs [] w = (Inr rs1, w1)"
      and pr: "pr (Suc (length xs)) ?n q w1 = (None, w2)"
      and call: "qd q w2 = (Inl e, w3)"
  proof -
    have step: "batch_step qd q w2 = (?fail, w3)"
      using call by (simp add: batch_step_def batch_failure_def)
    have "batch_loop qd pr ?n 1 (xs @ q # ys) [] w =
            prepend rs1 (batch_loop qd pr ?n (1 + length xs) (q # ys) [] w1)"
      using pre by (rule batch_loop_append)
    also have "batch_loop qd pr ?n (1 + length xs) (q # ys) [] w1 =
                 prepend [?fail] (batch_loop qd pr ?n (Suc (1 + length xs)) ys [] w3)"
      using batch_loop_Cons [of pr "1 + length xs" ?n q w1 w2 qd ys] pr step by simp
    finally show ?thesis by (simp add: batch_queries_def)
  qed
  have b: "perf_loop qd clk (xs @ q # ys) [] v =
        (fst (perf_loop qd clk xs [] v)
           @ \<lparr>query = q, decision = None, confidence = None, error = Some (str e),
              response_time =
                Some (fst (clk v') - fst (clk (snd (perf_loop qd clk xs [] v)))),
              success = False\<rparr>
           # fst (perf_loop qd clk ys [] (snd (clk v'))),
         snd (perf_loop qd clk ys [] (snd (clk v'))))"
    if call: "qd q (snd (clk (snd (perf_loop qd clk xs [] v)))) = (Inl e, v')"
  proof -
    let ?v1 = "snd (perf_loop qd clk xs [] v)"
    have "perf_step qd clk q ?v1 = (perf_failure q e (fst (clk v') - fst (clk ?v1)), snd (clk v'))"
      using perf_step_raise [of qd q clk ?v1 e v'] call by simp
    then show ?thesis
      by (simp add: perf_loop_append perf_loop_Cons perf_failure_def del: perf_loop.simps(2))
  qed
  have c: "\<exists>rs u. batch_queries qd pr qs w = (Inr rs, u) \<and> length rs = length qs"
    if quiet: "\<forall>i n q u. fst (pr i n q u) = None"
  proof -
    from quiet have "\<forall>i q u. fst (pr i (length qs) q u) = None" by simp
    then obtain rs u where ret: "batch_loop qd pr (length qs) 1 qs [] w = (Inr rs, u)"
      using batch_loop_returns [of pr "length qs" qd 1 qs w] by blast
    from map_query_batch_loop [OF ret] have "length rs = length qs" by (metis length_map)
    with ret show ?thesis by (auto simp: batch_queries_def)
  qed
  have d: "length (fst (perf_loop qd clk qs [] v)) = length qs"
    by (metis map_query_perf_loop length_map)
  from a b c d show ?thesis by blast
qed

theorem C6_failure_recorded_and_batch_continues_witness:
  "batch_queries scripted utf8_stdout ([''a''] @ ''down'' # [''bare'']) 0 =
     (Inr [\<lparr>query = ''a'', decision = Some (JStr ''approved''),
            confidence = Some (JFloat (1 / 2)), error = None,
            response_time = None, success = True\<rparr>,
           \<lparr>query = ''down'', decision = None, confidence = None,
            error = Some ''connection refused'', response_time = None,
            success = False\<rparr>,
           \<lparr>query = ''bare'', decision = Some (JStr ''approved''),
            confidence = Some JNull, error = None, response_time = None,
            success = True\<rparr>], 6) \<and>
   fst (perf_loop scripted tick ([''a''] @ ''down'' # [''bare'']) [] 1) =
     [\<lparr>query = ''a'', decision = Some (JStr ''approved''),
       confidence = Some (JFloat (1 / 2)), error = None,
       response_time = Some 3, success = True\<rparr>,
      \<lparr>query = ''down'', decision = None, confidence = None,
       error = Some ''connection refused'', response_time = Some 3,
       success = False\<rparr>,
      \<lparr>query = ''bare'', decision = Some (JStr ''approved''),
       confidence = Some (JInt 0), error = None,
       response_time = Some 3, success = True\<rparr>]"
proof -
  let ?a = "\<lparr>query = ''a'', decision = Some (JStr ''approved''),
            confidence = Some (JFloat (1 / 2)), error = None,
            response_time = None, success = True\<rparr>"
  have pre: "batch_loop scripted utf8_stdout (length ([''a''] @ ''down'' # [''bare''])) 1
               [''a''] [] 0 = (Inr [?a], 2)"
    by (simp add: run_defs)
  have pr: "utf8_stdout (Suc (length [''a''])) (length ([''a''] @ ''down'' # [''bare'']))
              ''down'' 2 = (None, 2)"
    by (simp add: utf8_stdout_def)
  have call: "scripted ''down'' 2 = (Inl (PyException ''connection refused''), 4)"
    by (simp add: scripted_def)
  have pcall: "scripted ''down'' (snd (tick (snd (perf_loop scripted tick [''a''] [] 1))))
                 = (Inl (PyException ''connection refused''), 8)"
    by (simp add: run_defs)
  from C6_failure_recorded_and_batch_continues
         [of scripted utf8_stdout "[''a'']" "''down''" "[''bare'']" 0 "[?a]" 2 2
             "PyException ''connection refused''" 4 tick 1 8 "[]"]
       pre pr call pcall
  have "batch_queries scripted utf8_stdout ([''a''] @ ''down'' # [''bare'']) 0 =
          prepend ([?a] @ [\<lparr>query = ''down'', decision = None, confidence = None,
                            error = Some (str (PyException ''connection refused'')),
                            response_time = None, success = False\<rparr>])
            (batch_loop scripted utf8_stdout (length ([''a''] @ ''down'' # [''bare'']))
               (Suc (Suc (length [''a'']))) [''bare''] [] 4) \<and>
        perf_loop scripted tick ([''a''] @ ''down'' # [''bare'']) [] 1 =
          (fst (perf_loop scripted tick [''a''] [] 1)
             @ \<lparr>query = ''down'', decision = None, confidence = None,
                error = Some (str (PyException ''connection refused'')),
                response_time =
                  Some (fst (tick 8) - fst (tick (snd (perf_loop scripted tick [''a''] [] 1)))),
                success = False\<rparr>
             # fst (perf_loop scripted tick [''bare''] [] (snd (tick 8))),
           snd (perf_loop scripted tick [''bare''] [] (snd (tick 8))))"
    by blast
  then show ?thesis by (simp add: run_defs)
qed

subsection \<open>Every call raises\<close>

text \<open>
  The \<^verbatim>\<open>error\<close> field is \<^verbatim>\<open>str(e)\<close>, and \<^verbatim>\<open>str(Exception())\<close> is the empty
  string: with a client that always raises such an exception, the error string of the
  record is empty in both methods.
\<close>

theorem C7_empty_error_counterexample:
  "fst (batch_queries silent utf8_stdout [''q''] 0) =
     Inr [\<lparr>query = ''q'', decision = None, confidence = None, error = Some [],
           response_time = None, success = False\<rparr>] \<and>
   results (projr (fst (analyze_performance silent tick [''q''] 0))) =
     [\<lparr>query = ''q'', decision = None, confidence = None, error = Some [],
       response_time = Some 3, success = False\<rparr>]"
  by (simp add: run_defs)

text \<open>
  Claim C7, as the code has it. If the call raises on every query of a non-empty batch,
  then every record (of the list that \<^verbatim>\<open>batch_queries\<close> returns, and of the summary
  of \<^verbatim>\<open>analyze_performance\<close>) has \<^verbatim>\<open>success == False\<close> and its \<^verbatim>\<open>error\<close> is the
  text \<^verbatim>\<open>str(e)\<close> of an exception that the call raised for the record's query (so it
  is non-empty whenever those texts are); \<^verbatim>\<open>analyze_performance\<close> returns a summary
  whose \<^verbatim>\<open>success_rate\<close> is 0 and whose \<^verbatim>\<open>average_confidence\<close> is 0.
\<close>

theorem C7_every_call_raises:
  assumes "\<forall>q \<in> set qs. \<forall>v. isl (fst (qd q v))" and "qs \<noteq> []"
  shows "(batch_queries qd pr qs w = (Inr rs, w') \<longrightarrow>
            (\<forall>r \<in> set rs.
               \<not> success r \<and>
               (\<exists>e v. fst (qd (query r) v) = Inl e \<and> error r = Some (str e)))) \<and>
         (\<exists>s. fst (analyze_performance qd clk qs w) = Inr s \<and>
              success_rate s = 0 \<and> average_confidence s = 0 \<and>
              (\<forall>r \<in> set (results s).
                 \<not> success r \<and>
                 (\<exists>e v. fst (qd (query r) v) = Inl e \<and> error r = Some (str e))))"
proof -
  let ?rs = "fst (perf_loop qd clk qs [] (snd (clk w)))"
  let ?t = "fst (clk (snd (perf_loop qd clk qs [] (snd (clk w))))) - fst (clk w)"
  have batch: "\<forall>r \<in> set rs.
            \<not> success r \<and> (\<exists>e v. fst (qd (query r) v) = Inl e \<and> error r = Some (str e))"
    if "batch_queries qd pr qs w = (Inr rs, w')"
    using batch_all_raise [OF assms(1), of pr "length qs" 1 w rs w'] that
    unfolding batch_queries_def by blast
  have perf: "\<forall>r \<in> set ?rs.
            \<not> success r \<and> (\<exists>e v. fst (qd (query r) v) = Inl e \<and> error r = Some (str e))"
    using perf_all_raise [OF assms(1)] by blast
  then have none: "filter success ?rs = []" by (simp add: filter_empty_conv)
  let ?s = "\<lparr>total_queries = length qs, successful_queries = 0, total_time = ?t,
             average_time = ?t / real (length qs), success_rate = 0,
             average_confidence = 0, results = ?rs\<rparr>"
  have "fst (analyze_performance qd clk qs w) = Inr ?s"
    using build_summary_no_success [OF assms(2) none]
    by (simp add: analyze_performance_unfold)
  moreover have "success_rate ?s = 0" "average_confidence ?s = 0" "results ?s = ?rs"
    by simp_all
  ultimately have "\<exists>s. fst (analyze_performance qd clk qs w) = Inr s \<and>
              success_rate s = 0 \<and> average_confidence s = 0 \<and>
              (\<forall>r \<in> set (results s).
                 \<not> success r \<and>
                 (\<exists>e v. fst (qd (query r) v) = Inl e \<and> error r = Some (str e)))"
    using perf by metis
  with batch show ?thesis by blast
qed

theorem C7_every_call_raises_witness:
  "success_rate (projr (fst (analyze_performance silent tick [''p'', ''q''] 0))) = 0 \<and>
   average_confidence (projr (fst (analyze_performance silent tick [''p'', ''q''] 0))) = 0 \<and>
   map success (projr (fst (batch_queries silent utf8_stdout [''p'', ''q''] 0)))
     = [False, False] \<and>
   map error (projr (fst (batch_queries silent utf8_stdout [''p'', ''q''] 0)))
     = [Some [], Some []]"
proof -
  have h: "\<forall>q \<in> set [''p'', ''q'']. \<forall>v. isl (fst (silent q v))"
    by (simp add: silent_def)
  have ne: "[''p'', ''q''] \<noteq> []" by simp
  from C7_every_call_raises [OF h ne, of utf8_stdout 0 _ _ tick] obtain s
    where "fst (analyze_performance silent tick [''p'', ''q''] 0) = Inr s"
      and "success_rate s = 0" and "average_confidence s = 0"
    by blast
  then show ?thesis by (simp add: run_defs)
qed

subsection \<open>A response without a confidence score\<close>

text \<open>
  Claim C8. When the call returns a dict without the key \<^verbatim>\<open>ConfidenceScore\<close>,
  \<^verbatim>\<open>analyze_performance\<close> records a success with confidence 0 (the default of
  \<^verbatim>\<open>result.get('ConfidenceScore', 0)\<close>), which adds nothing to the sum of the
  confidences, while \<^verbatim>\<open>batch_queries\<close> records a success with confidence
  \<^verbatim>\<open>None\<close> for the same response.
\<close>

theorem C8_missing_confidence_defaults:
  assumes "map_of kvs ''ConfidenceScore'' = None"
  shows "(qd q (snd (clk w)) = (Inr (JObj kvs), w') \<longrightarrow>
            success (fst (perf_step qd clk q w)) \<and>
            confidence (fst (perf_step qd clk q w)) = Some (JInt 0) \<and>
            sum_confidence (fst (perf_step qd clk q w) # rs) acc = sum_confidence rs acc) \<and>
         (qd q v = (Inr (JObj kvs), v') \<longrightarrow>
            success (fst (batch_step qd q v)) \<and>
            confidence (fst (batch_step qd q v)) = Some JNull)"
proof -
  have p: "success (fst (perf_step qd clk q w)) \<and>
           confidence (fst (perf_step qd clk q w)) = Some (JInt 0)"
    if "qd q (snd (clk w)) = (Inr (JObj kvs), w')"
    using that assms
    by (cases "clk w"; cases "clk w'") (simp add: perf_step_def perf_success_def)
  have b: "success (fst (batch_step qd q v)) \<and>
           confidence (fst (batch_step qd q v)) = Some JNull"
    if "qd q v = (Inr (JObj kvs), v')"
    using that assms by (simp add: batch_step_def batch_success_def)
  from p b show ?thesis by (auto simp: py_add_def)
qed

theorem C8_missing_confidence_defaults_witness:
  "confidence (fst (perf_step scripted tick ''bare'' 0)) = Some (JInt 0) \<and>
   confidence (fst (batch_step scripted ''bare'' 0)) = Some JNull \<and>
   average_confidence (projr (fst (analyze_performance scripted tick
     [''a'', ''down'', ''bare''] 0))) = 1 / 4"
proof -
  have m: "map_of [(''Decision'', JStr ''approved'')] ''ConfidenceScore'' = None" by simp
  have p: "scripted ''bare'' (snd (tick 0)) = (Inr (JObj [(''Decision'', JStr ''approved'')]), 3)"
    by (simp add: scripted_def tick_def)
  have b: "scripted ''bare'' 0 = (Inr (JObj [(''Decision'', JStr ''approved'')]), 2)"
    by (simp add: scripted_def)
  from C8_missing_confidence_defaults [OF m, of scripted "''bare''" tick 0 3 _ _ 0 2] p b
  have "confidence (fst (perf_step scripted tick ''bare'' 0)) = Some (JInt 0) \<and>
        confidence (fst (batch_step scripted ''bare'' 0)) = Some JNull"
    by blast
  then show ?thesis by (simp add: run_mixed)
qed

subsection \<open>A confidence score that is null\<close>

text \<open>
  Claim C9. When the call for some query of the batch returns a dict whose
  \<^verbatim>\<open>ConfidenceScore\<close> is there and is \<^verbatim>\<open>None\<close>, the loop still runs to its end (one
  record per query), and the sum of the confidences then raises TypeError: the whole call
  of \<^verbatim>\<open>analyze_performance\<close> fails and returns no summary.
\<close>

theorem C9_null_confidence_raises:
  assumes "qd q (snd (clk (snd (perf_loop qd clk xs [] (snd (clk w)))))) = (Inr (JObj kvs), w')"
    and "map_of kvs ''ConfidenceScore'' = Some JNull"
  shows "fst (analyze_performance qd clk (xs @ q # ys) w) = Inl TypeError \<and>
         length (fst (perf_loop qd clk (xs @ q # ys) [] (snd (clk w)))) = length (xs @ q # ys)"
proof -
  let ?w1 = "snd (perf_loop qd clk xs [] (snd (clk w)))"
  let ?r = "fst (perf_step qd clk q ?w1)"
  let ?rs = "fst (perf_loop qd clk (xs @ q # ys) [] (snd (clk w)))"
  have r: "success ?r \<and> confidence ?r = Some JNull"
    using assms
    by (cases "clk ?w1"; cases "clk w'") (simp add: perf_step_def perf_success_def)
  have mem: "?r \<in> set ?rs"
    by (simp add: perf_loop_append perf_loop_Cons del: perf_loop.simps(2))
  with r have mem': "?r \<in> set (filter success ?rs)" by simp
  then have ne: "filter success ?rs \<noteq> []" by (metis empty_iff empty_set)
  have some: "\<forall>r \<in> set (filter success ?rs). confidence r \<noteq> None"
  proof
    fix r assume "r \<in> set (filter success ?rs)"
    then have "r \<in> set ?rs" and "success r" by simp_all
    with perf_loop_records [of r qd clk "xs @ q # ys" "snd (clk w)"]
    show "confidence r \<noteq> None" by (simp add: exactly_one_populated_def)
  qed
  have bad: "\<exists>r \<in> set (filter success ?rs). \<not> is_number (confidence r)"
    using mem' r by (intro bexI [of _ ?r]) simp_all
  have "sum_confidence (filter success ?rs) (PInt 0) = Inl TypeError"
    by (rule sum_confidence_TypeError [OF some bad])
  from build_summary_sum_raises [OF _ ne this, of "xs @ q # ys"]
  have "fst (analyze_performance qd clk (xs @ q # ys) w) = Inl TypeError"
    by (simp add: analyze_performance_unfold)
  moreover have "length ?rs = length (xs @ q # ys)"
    by (metis map_query_perf_loop length_map)
  ultimately show ?thesis by simp
qed

theorem C9_null_confidence_raises_witness:
  "fst (analyze_performance scripted tick ([''a''] @ ''null'' # [''bare'']) 0) = Inl TypeError \<and>
   length (fst (perf_loop scripted tick ([''a''] @ ''null'' # [''bare'']) [] 1)) = 3"
proof -
  have c: "scripted ''null'' (snd (tick (snd (perf_loop scripted tick [''a''] [] (snd (tick 0))))))
             = (Inr (JObj [(''Decision'', JStr ''approved''), (''ConfidenceScore'', JNull)]), 8)"
    by (simp add: run_defs)
  have m: "map_of [(''Decision'', JStr ''approved''), (''ConfidenceScore'', JNull)]
             ''ConfidenceScore'' = Some JNull"
    by simp
  from C9_null_confidence_raises
         [of scripted "''null''" tick "[''a'']" 0
             "[(''Decision'', JStr ''approved''), (''ConfidenceScore'', JNull)]" 8 "[''bare'']"]
       c m
  show ?thesis by (simp add: tick_def)
qed

subsection \<open>The summary carries the records\<close>

text \<open>
  Claim C10. Whenever \<^verbatim>\<open>analyze_performance\<close> returns a summary, its
  \<^verbatim>\<open>results\<close> field is the complete list of the records of the loop: one entry per
  input query, in input order, next to the aggregate fields.
\<close>

theorem C10_summary_carries_results:
  assumes "fst (analyze_performance qd clk qs w) = Inr s"
  shows "results s = fst (perf_loop qd clk qs [] (snd (clk w))) \<and>
         length (results s) = length qs \<and>
         map query (results s) = qs"
proof -
  let ?rs = "fst (perf_loop qd clk qs [] (snd (clk w)))"
  from assms obtain t where "build_summary qs ?rs t = Inr s"
    by (simp add: analyze_performance_unfold)
  then have r: "results s = ?rs" by (rule build_summary_Inr(6))
  have m: "map query ?rs = qs" by (rule map_query_perf_loop)
  have "length ?rs = length qs" by (metis m length_map)
  with r m show ?thesis by simp
qed

theorem C10_summary_carries_results_witness:
  "map query (results (projr (fst (analyze_performance scripted tick
      [''a'', ''down'', ''bare''] 0)))) = [''a'', ''down'', ''bare''] \<and>
   length (results (projr (fst (analyze_performance scripted tick
      [''a'', ''down'', ''bare''] 0)))) = 3"
proof -
  let ?run = "analyze_performance scripted tick [''a'', ''down'', ''bare''] 0"
  have "fst ?run = Inr (projr (fst ?run))" by (simp add: run_mixed)
  from C10_summary_carries_results [OF this]
  have "length (results (projr (fst ?run))) = length [''a'', ''down'', ''bare''] \<and>
        map query (results (projr (fst ?run))) = [''a'', ''down'', ''bare'']"
    by blast
  then show ?thesis by simp
qed

end
